theory Spec2Isabelle
  imports Complex_Main "HOL-Library.Sublist" "HOL-Library.AList"
    "HOL-Library.Char_ord" "HOL-Library.List_Lexorder" "HOL-Library.Multiset"
begin

section \<open>Strings as the script uses them\<close>

text \<open>
  The script \<^verbatim>\<open>scripts/table_all_reml.py\<close> works on Python \<^verbatim>\<open>str\<close> values.
  They are modelled as \<^typ>\<open>string\<close>, one \<^typ>\<open>char\<close> per code point, which covers
  the code points below 256. The library methods the script calls
  (\<^verbatim>\<open>startswith\<close>, \<^verbatim>\<open>strip\<close>, \<^verbatim>\<open>split\<close>, \<^verbatim>\<open>replace\<close>, \<^verbatim>\<open>rsplit\<close>,
  \<^verbatim>\<open>os.path.basename\<close>) are written out as functions of their own.
\<close>

definition LF :: char where
  "LF = CHR 0x0A"

definition CR :: char where
  "CR = CHR 0x0D"

definition isspace :: "char \<Rightarrow> bool" where
  \<comment> \<open>\<^verbatim>\<open>str.isspace\<close> on the code points below 256\<close>
  "isspace c = ((of_char c :: nat) \<in> {9, 10, 11, 12, 13, 28, 29, 30, 31, 32, 133, 160})"

definition startswith :: "string \<Rightarrow> string \<Rightarrow> bool" where
  "startswith s p = prefix p s"

definition strip :: "string \<Rightarrow> string" where
  \<comment> \<open>\<^verbatim>\<open>s.strip()\<close>: whitespace removed at both ends\<close>
  "strip s = rev (dropWhile isspace (rev (dropWhile isspace s)))"

function split_ws :: "string \<Rightarrow> string list" where
  \<comment> \<open>\<^verbatim>\<open>s.split()\<close>: the maximal runs of non-whitespace characters\<close>
  "split_ws s =
     (case dropWhile isspace s of
        [] \<Rightarrow> []
      | c # cs \<Rightarrow> (c # takeWhile (\<lambda>x. \<not> isspace x) cs)
                 # split_ws (dropWhile (\<lambda>x. \<not> isspace x) cs))"
  by pat_completeness auto
termination
proof (relation "measure length")
  show "wf (measure length)" by simp
next
  fix s :: string and c cs
  assume a: "dropWhile isspace s = c # cs"
  have "length (dropWhile (\<lambda>x. \<not> isspace x) cs) \<le> length cs"
    by (rule length_dropWhile_le)
  moreover have "length (c # cs) \<le> length s"
    using length_dropWhile_le [of isspace s] a by simp
  ultimately show "(dropWhile (\<lambda>x. \<not> isspace x) cs, s) \<in> measure length"
    by simp
qed

declare split_ws.simps [simp del]

fun str_replace :: "string \<Rightarrow> string \<Rightarrow> string \<Rightarrow> string" where
  \<comment> \<open>\<^verbatim>\<open>s.replace(old, new)\<close> for a non-empty \<open>old\<close>: every occurrence, found from
      the left and not overlapping, is replaced\<close>
  "str_replace old new [] = []"
| "str_replace old new (c # cs) =
     (if prefix old (c # cs)
      then new @ str_replace old new (drop (length old - 1) cs)
      else c # str_replace old new cs)"

definition rsplit1 :: "char \<Rightarrow> string \<Rightarrow> string list" where
  \<comment> \<open>\<^verbatim>\<open>s.rsplit(sep, 1)\<close>: at most one split, at the last separator\<close>
  "rsplit1 sep s =
     (if sep \<in> set s
      then [rev (tl (dropWhile (\<lambda>c. c \<noteq> sep) (rev s))),
            rev (takeWhile (\<lambda>c. c \<noteq> sep) (rev s))]
      else [s])"

definition basename :: "string \<Rightarrow> string" where
  \<comment> \<open>\<^verbatim>\<open>os.path.basename\<close> (POSIX): what follows the last slash\<close>
  "basename p = rev (takeWhile (\<lambda>c. c \<noteq> CHR ''/'') (rev p))"

definition re_match_name :: "string \<Rightarrow> (string \<times> string) option" where
  \<comment> \<open>\<^verbatim>\<open>re.match(r'^(.+)\.([^.]+)$', s)\<close>: the second group holds no dot, so the
      literal dot is the last dot of \<open>s\<close>; the first group is non-empty and holds
      no line feed, the second is non-empty\<close>
  "re_match_name s =
     (if CHR ''.'' \<in> set s
      then (let a = rev (tl (dropWhile (\<lambda>c. c \<noteq> CHR ''.'') (rev s)));
                b = rev (takeWhile (\<lambda>c. c \<noteq> CHR ''.'') (rev s))
            in if a \<noteq> [] \<and> LF \<notin> set a \<and> b \<noteq> [] then Some (a, b) else None)
      else None)"

section \<open>The filename decoder\<close>

definition parse_filename :: "string \<Rightarrow> string \<times> string" where
  "parse_filename filename =
     (let base = basename filename;
          name_without_ext = str_replace ''.reml'' [] base;
          parts = rsplit1 CHR ''.'' name_without_ext
      in if length parts = 2 then (parts ! 0, parts ! 1)
         else (case re_match_name name_without_ext of
                 Some (a, b) \<Rightarrow> (a, b)
               | None \<Rightarrow> (name_without_ext, ''UNKNOWN'')))"

section \<open>The report parser\<close>

text \<open>
  \<^verbatim>\<open>float(val)\<close> is Python's own conversion. The parser takes it as the parameter
  \<open>to_float\<close>: \<open>None\<close> stands for the \<^verbatim>\<open>ValueError\<close> the script catches, and \<open>'f\<close> is the
  type of the numbers.
\<close>

record 'f file_result =
  converged :: "string option"
  her_k1 :: "'f option list option"
  her_k2 :: "'f option list option"
  her_k3 :: "'f option list option"
  her_all :: "'f option list option"

datatype error = IOError string | IndexError

definition empty_result :: "'f file_result" where
  "empty_result =
     \<lparr>converged = None, her_k1 = None, her_k2 = None, her_k3 = None, her_all = None\<rparr>"

fun universal_newlines :: "string \<Rightarrow> string" where
  \<comment> \<open>text mode: \<^verbatim>\<open>\r\n\<close> and a lone \<^verbatim>\<open>\r\<close> are read as \<^verbatim>\<open>\n\<close>\<close>
  "universal_newlines [] = []"
| "universal_newlines [c] = (if c = CR then [LF] else [c])"
| "universal_newlines (c # d # cs) =
     (if c = CR then (if d = LF then LF # universal_newlines cs
                      else LF # universal_newlines (d # cs))
      else c # universal_newlines (d # cs))"

fun split_lines :: "string \<Rightarrow> string list" where
  \<comment> \<open>the lines of a text, each keeping its line feed\<close>
  "split_lines [] = []"
| "split_lines (c # cs) =
     (if c = LF then [c] # split_lines cs
      else (case split_lines cs of [] \<Rightarrow> [[c]] | l # ls \<Rightarrow> (c # l) # ls))"

definition readlines :: "string \<Rightarrow> string list" where
  "readlines content = split_lines (universal_newlines content)"

fun find_converged :: "string list \<Rightarrow> string option" where
  \<comment> \<open>the loop of lines 57 to 62: it breaks at the first line that starts with the keyword\<close>
  "find_converged [] = None"
| "find_converged (line # lines) =
     (if startswith line ''Converged''
      then (let parts = split_ws (strip line)
            in if 2 \<le> length parts then Some (parts ! 1) else None)
      else find_converged lines)"

fun find_component_start :: "nat \<Rightarrow> string list \<Rightarrow> nat option" where
  \<comment> \<open>the loop of lines 66 to 69 over \<^verbatim>\<open>enumerate(lines)\<close>\<close>
  "find_component_start i [] = None"
| "find_component_start i (line # lines) =
     (if startswith line ''Component'' then Some i
      else find_component_start (Suc i) lines)"

definition parse_value :: "(string \<Rightarrow> 'f option) \<Rightarrow> string \<Rightarrow> 'f option" where
  "parse_value to_float val = (if val = ''NA'' then None else to_float val)"

definition parse_values :: "(string \<Rightarrow> 'f option) \<Rightarrow> string list \<Rightarrow> 'f option list" where
  \<comment> \<open>the loop over \<^verbatim>\<open>values[:5]\<close>\<close>
  "parse_values to_float vals = map (parse_value to_float) (take 5 vals)"

function pad_values :: "'f option list \<Rightarrow> 'f option list" where
  \<comment> \<open>\<^verbatim>\<open>while len(parsed_values) < 5: parsed_values.append(None)\<close>\<close>
  "pad_values parsed = (if length parsed < 5 then pad_values (parsed @ [None]) else parsed)"
  by pat_completeness auto
termination
  by (relation "measure (\<lambda>parsed. 5 - length parsed)") auto

declare pad_values.simps [simp del]

definition store_component ::
  "string \<Rightarrow> 'f option list \<Rightarrow> 'f file_result \<Rightarrow> 'f file_result" where
  "store_component component parsed r =
     (if component = ''Her_K1'' then r\<lparr>her_k1 := Some parsed\<rparr>
      else if component = ''Her_K2'' then r\<lparr>her_k2 := Some parsed\<rparr>
      else if component = ''Her_K3'' then r\<lparr>her_k3 := Some parsed\<rparr>
      else if component = ''Her_All'' then r\<lparr>her_all := Some parsed\<rparr>
      else r)"

definition component_line ::
  "(string \<Rightarrow> 'f option) \<Rightarrow> string \<Rightarrow> 'f file_result \<Rightarrow> 'f file_result" where
  \<comment> \<open>the body of the loop of lines 75 to 112, for the raw line \<^verbatim>\<open>lines[i]\<close>\<close>
  "component_line to_float raw r =
     (let line = strip raw
      in if line = [] then r
         else (let parts = split_ws line
               in if length parts < 2 then r
                  else store_component (hd parts)
                         (pad_values (parse_values to_float (tl parts))) r))"

definition parse_reml_lines :: "(string \<Rightarrow> 'f option) \<Rightarrow> string list \<Rightarrow> 'f file_result" where
  "parse_reml_lines to_float lines =
     (let result = empty_result\<lparr>converged := find_converged lines\<rparr>
      in case find_component_start 0 lines of
           None \<Rightarrow> result
         | Some i \<Rightarrow> fold (component_line to_float) (drop (Suc i) lines) result)"

definition parse_reml_file ::
  "(string \<Rightarrow> 'f option) \<Rightarrow> (string \<Rightarrow> string option) \<Rightarrow> string \<Rightarrow> error + 'f file_result" where
  \<comment> \<open>\<open>fs\<close> gives the text of a file; \<open>None\<close> is a file that \<^verbatim>\<open>open\<close> cannot read\<close>
  "parse_reml_file to_float fs filepath =
     (case fs filepath of
        None \<Rightarrow> Inl (IOError filepath)
      | Some content \<Rightarrow> Inr (parse_reml_lines to_float (readlines content)))"

definition component_of :: "string \<Rightarrow> 'f file_result \<Rightarrow> 'f option list option" where
  \<comment> \<open>the entry of the result that \<open>store_component\<close> writes for a label\<close>
  "component_of label r =
     (if label = ''Her_K1'' then her_k1 r
      else if label = ''Her_K2'' then her_k2 r
      else if label = ''Her_K3'' then her_k3 r
      else if label = ''Her_All'' then her_all r
      else None)"

definition component_labels :: "string list" where
  "component_labels = [''Her_K1'', ''Her_K2'', ''Her_K3'', ''Her_All'']"

definition rows5 :: "'f file_result \<Rightarrow> bool" where
  \<comment> \<open>every row of a result that is there has five entries\<close>
  "rows5 r = (\<forall>row. Some row \<in> {her_k1 r, her_k2 r, her_k3 r, her_all r} \<longrightarrow> length row = 5)"

section \<open>The driver\<close>

text \<open>
  \<^verbatim>\<open>main\<close> reads its surroundings through \<^verbatim>\<open>glob.glob\<close>, \<^verbatim>\<open>open\<close>, the import of
  the two spreadsheet libraries and \<^verbatim>\<open>wb.save\<close>. They are the fields of an environment;
  what the run does to the outside is the list of its events, in order, with the way it
  ended. The two dictionaries of the script are association lists: \<open>AList.update\<close>
  overwrites a key in place and adds a new key at the end, as a Python \<^verbatim>\<open>dict\<close> does.
\<close>

record 'f summary_entry =
  sum_converged :: "string option"
  sum_her_k1 :: "'f option"
  sum_her_k2 :: "'f option"
  sum_her_k3 :: "'f option"
  sum_her_all :: "'f option"

datatype 'f cell_value = Blank | Text string | Number 'f

record 'f cell =
  cell_value :: "'f cell_value"
  font_bold :: bool
  align_horizontal :: "string option"
  align_vertical :: "string option"

record 'f worksheet =
  ws_title :: string
  ws_cells :: "((nat \<times> nat) \<times> 'f cell) list"
  ws_merged :: "(nat \<times> nat \<times> nat \<times> nat) list"

record 'f workbook =
  wb_summary :: "'f worksheet"
  wb_detailed :: "'f worksheet"

type_synonym 'f detailed_row = "(string \<times> 'f cell_value) list"

record 'f tables =
  summary_data_dict :: "(string \<times> (string \<times> 'f summary_entry) list) list"
  detailed_data :: "'f detailed_row list"

record 'f data_frame =
  df_columns :: "string list"
  df_rows :: "'f cell_value list list"

datatype 'f event = Print string | Open string | Save string "'f workbook"

datatype outcome = Returned | Raised error

record 'f run =
  events :: "'f event list"
  outcome :: outcome

record args =
  arg_pattern :: string
  arg_output :: string

record env =
  glob_files :: "string \<Rightarrow> string list"
  file_text :: "string \<Rightarrow> string option"
  libs_installed :: bool
  writable :: "string \<Rightarrow> bool"

function str_nat :: "nat \<Rightarrow> string" where
  \<comment> \<open>the decimal digits of a number, as an f-string prints it\<close>
  "str_nat n =
     (if n < 10 then [char_of (48 + n)] else str_nat (n div 10) @ [char_of (48 + n mod 10)])"
  by pat_completeness auto
termination
  by (relation "measure id") auto

declare str_nat.simps [simp del]

fun first_value :: "'f option list option \<Rightarrow> 'f option" where
  \<comment> \<open>\<^verbatim>\<open>row[0] if row and row[0] is not None else None\<close>\<close>
  "first_value None = None"
| "first_value (Some []) = None"
| "first_value (Some (x # xs)) = x"

definition summary_entry_of :: "'f file_result \<Rightarrow> 'f summary_entry" where
  "summary_entry_of parsed =
     \<lparr>sum_converged = converged parsed,
      sum_her_k1 = first_value (her_k1 parsed),
      sum_her_k2 = first_value (her_k2 parsed),
      sum_her_k3 = first_value (her_k3 parsed),
      sum_her_all = first_value (her_all parsed)\<rparr>"

definition opt_text :: "string option \<Rightarrow> 'f cell_value" where
  "opt_text v = (case v of None \<Rightarrow> Blank | Some s \<Rightarrow> Text s)"

definition opt_number :: "'f option \<Rightarrow> 'f cell_value" where
  "opt_number v = (case v of None \<Rightarrow> Blank | Some x \<Rightarrow> Number x)"

definition components :: "'f file_result \<Rightarrow> (string \<times> 'f option list option) list" where
  "components parsed =
     [(''Her_K1'', her_k1 parsed), (''Her_K2'', her_k2 parsed),
      (''Her_K3'', her_k3 parsed), (''Her_All'', her_all parsed)]"

definition detailed_row ::
  "string \<Rightarrow> string \<Rightarrow> string \<Rightarrow> string option \<Rightarrow> 'f option list \<Rightarrow> error + 'f detailed_row" where
  \<comment> \<open>the dictionary of lines 173 to 183; an index past the end of the row raises\<close>
  "detailed_row phenotype type_val component_name conv component_data =
     (if length component_data < 5 then Inl IndexError
      else Inr [(''Phenotype'', Text phenotype),
                (''Type'', Text type_val),
                (''Component'', Text component_name),
                (''Converged'', opt_text conv),
                (''Heritability'', opt_number (component_data ! 0)),
                (''SE'', opt_number (component_data ! 1)),
                (''Size'', opt_number (component_data ! 2)),
                (''Mega_Intensity'', opt_number (component_data ! 3)),
                (''SE_2'', opt_number (component_data ! 4))])"

fun detailed_rows ::
  "string \<Rightarrow> string \<Rightarrow> string option \<Rightarrow> (string \<times> 'f option list option) list
   \<Rightarrow> 'f detailed_row list \<Rightarrow> error + 'f detailed_row list" where
  \<comment> \<open>the loop of lines 171 to 184: a component that is \<^verbatim>\<open>None\<close> or an empty list is
      passed over\<close>
  "detailed_rows phenotype type_val conv [] acc = Inr acc"
| "detailed_rows phenotype type_val conv ((component_name, component_data) # rest) acc =
     (case component_data of
        None \<Rightarrow> detailed_rows phenotype type_val conv rest acc
      | Some [] \<Rightarrow> detailed_rows phenotype type_val conv rest acc
      | Some (x # xs) \<Rightarrow>
          (case detailed_row phenotype type_val component_name conv (x # xs) of
             Inl e \<Rightarrow> Inl e
           | Inr row \<Rightarrow> detailed_rows phenotype type_val conv rest (acc @ [row])))"

definition process_file ::
  "(string \<Rightarrow> 'f option) \<Rightarrow> (string \<Rightarrow> string option) \<Rightarrow> string \<Rightarrow> 'f tables
   \<Rightarrow> error + 'f tables" where
  \<comment> \<open>the body of the loop of lines 147 to 184\<close>
  "process_file to_float fs filepath tb =
     (case parse_filename filepath of
        (phenotype, type_val) \<Rightarrow>
          (case parse_reml_file to_float fs filepath of
             Inl e \<Rightarrow> Inl e
           | Inr parsed \<Rightarrow>
               (let sd = summary_data_dict tb;
                    sd1 = (if map_of sd phenotype = None
                           then AList.update phenotype [] sd else sd);
                    sd2 = AList.map_entry phenotype
                            (AList.update type_val (summary_entry_of parsed)) sd1
                in case detailed_rows phenotype type_val (converged parsed)
                          (components parsed) (detailed_data tb) of
                     Inl e \<Rightarrow> Inl e
                   | Inr dd \<Rightarrow> Inr \<lparr>summary_data_dict = sd2, detailed_data = dd\<rparr>)))"

fun process_files ::
  "(string \<Rightarrow> 'f option) \<Rightarrow> (string \<Rightarrow> string option) \<Rightarrow> string list \<Rightarrow> 'f tables
   \<Rightarrow> 'f event list \<Rightarrow> 'f tables \<times> 'f event list \<times> error option" where
  \<comment> \<open>the loop itself: each file is opened in turn; an error ends the loop\<close>
  "process_files to_float fs [] tb tr = (tb, tr, None)"
| "process_files to_float fs (filepath # rest) tb tr =
     (case process_file to_float fs filepath tb of
        Inl e \<Rightarrow> (tb, tr @ [Open filepath], Some e)
      | Inr tb' \<Rightarrow> process_files to_float fs rest tb' (tr @ [Open filepath]))"

definition empty_tables :: "'f tables" where
  "empty_tables = \<lparr>summary_data_dict = [], detailed_data = []\<rparr>"

definition build_tables ::
  "(string \<Rightarrow> 'f option) \<Rightarrow> (string \<Rightarrow> string option) \<Rightarrow> string list \<Rightarrow> 'f event list
   \<Rightarrow> 'f tables \<times> 'f event list \<times> error option" where
  \<comment> \<open>\<^verbatim>\<open>for filepath in sorted(reml_files)\<close>, from empty tables\<close>
  "build_tables to_float fs reml_files tr =
     process_files to_float fs (sort reml_files) empty_tables tr"

definition summary_lookup ::
  "'f tables \<Rightarrow> string \<Rightarrow> string \<Rightarrow> 'f summary_entry option" where
  \<comment> \<open>\<^verbatim>\<open>summary_data_dict[phenotype][type_val]\<close>, where it exists\<close>
  "summary_lookup tb phenotype type_val =
     (case map_of (summary_data_dict tb) phenotype of
        None \<Rightarrow> None
      | Some d \<Rightarrow> map_of d type_val)"

subsection \<open>The workbook\<close>

text \<open>
  A worksheet holds the cells that were written, by row and column, and the merged
  ranges. \<^verbatim>\<open>ws.cell(row, column, value)\<close> makes the cell if there is none and sets its
  value unless the value is \<^verbatim>\<open>None\<close>; the font and the alignment assigned to the cell
  afterwards are the \<open>style\<close> argument. The dictionary \<^verbatim>\<open>type_start_cols\<close> is written
  and never read, and is left out.
\<close>

definition new_cell :: "'f cell" where
  "new_cell =
     \<lparr>cell_value = Blank, font_bold = False, align_horizontal = None, align_vertical = None\<rparr>"

definition new_sheet :: "string \<Rightarrow> 'f worksheet" where
  "new_sheet title = \<lparr>ws_title = title, ws_cells = [], ws_merged = []\<rparr>"

definition ws_cell ::
  "nat \<Rightarrow> nat \<Rightarrow> 'f cell_value \<Rightarrow> ('f cell \<Rightarrow> 'f cell) \<Rightarrow> 'f worksheet \<Rightarrow> 'f worksheet" where
  "ws_cell row col v style ws =
     (let c = (case map_of (ws_cells ws) (row, col) of None \<Rightarrow> new_cell | Some c \<Rightarrow> c);
          c' = (case v of Blank \<Rightarrow> c | Text t \<Rightarrow> c\<lparr>cell_value := v\<rparr>
                | Number x \<Rightarrow> c\<lparr>cell_value := v\<rparr>)
      in ws\<lparr>ws_cells := AList.update (row, col) (style c') (ws_cells ws)\<rparr>)"

definition merge_cells :: "nat \<Rightarrow> nat \<Rightarrow> nat \<Rightarrow> nat \<Rightarrow> 'f worksheet \<Rightarrow> 'f worksheet" where
  "merge_cells r1 c1 r2 c2 ws = ws\<lparr>ws_merged := ws_merged ws @ [(r1, c1, r2, c2)]\<rparr>"

definition plain :: "'f cell \<Rightarrow> 'f cell" where
  "plain c = c"

definition bold :: "'f cell \<Rightarrow> 'f cell" where
  \<comment> \<open>\<^verbatim>\<open>cell.font = Font(bold=True)\<close>\<close>
  "bold c = c\<lparr>font_bold := True\<rparr>"

definition center_both :: "'f cell \<Rightarrow> 'f cell" where
  \<comment> \<open>\<^verbatim>\<open>cell.alignment = Alignment(horizontal='center', vertical='center')\<close>\<close>
  "center_both c = c\<lparr>align_horizontal := Some ''center'', align_vertical := Some ''center''\<rparr>"

definition center_horizontal :: "'f cell \<Rightarrow> 'f cell" where
  \<comment> \<open>\<^verbatim>\<open>cell.alignment = Alignment(horizontal='center')\<close>\<close>
  "center_horizontal c = c\<lparr>align_horizontal := Some ''center'', align_vertical := None\<rparr>"

definition col_headers :: "string list" where
  "col_headers = [''Her_K1'', ''Her_K2'', ''Her_K3'', ''Her_All'', ''Converged'']"

definition all_types_of :: "(string \<times> (string \<times> 'f summary_entry) list) list \<Rightarrow> string list" where
  \<comment> \<open>the sorted set of the categories of every phenotype\<close>
  "all_types_of sd = sort (remdups (concat (map (\<lambda>pd. map fst (snd pd)) sd)))"

fun header_row1 :: "string list \<Rightarrow> nat \<Rightarrow> 'f worksheet \<Rightarrow> 'f worksheet" where
  "header_row1 [] col_idx ws = ws"
| "header_row1 (type_val # rest) col_idx ws =
     header_row1 rest (col_idx + 5)
       (ws_cell 1 col_idx (Text type_val) (\<lambda>c. bold (center_both c))
          (merge_cells 1 col_idx 1 (col_idx + 4) ws))"

fun sub_headers :: "string list \<Rightarrow> nat \<Rightarrow> 'f worksheet \<Rightarrow> nat \<times> 'f worksheet" where
  "sub_headers [] col_idx ws = (col_idx, ws)"
| "sub_headers (header # rest) col_idx ws =
     sub_headers rest (col_idx + 1)
       (ws_cell 2 col_idx (Text header) (\<lambda>c. center_horizontal (bold c)) ws)"

fun header_row2 :: "string list \<Rightarrow> nat \<Rightarrow> 'f worksheet \<Rightarrow> 'f worksheet" where
  "header_row2 [] col_idx ws = ws"
| "header_row2 (type_val # rest) col_idx ws =
     (case sub_headers col_headers col_idx ws of
        (col_idx', ws') \<Rightarrow> header_row2 rest col_idx' ws')"

fun blank_cells :: "nat list \<Rightarrow> nat \<Rightarrow> nat \<Rightarrow> 'f worksheet \<Rightarrow> 'f worksheet" where
  \<comment> \<open>\<^verbatim>\<open>for i in range(5): ws.cell(row, col_idx + i, value=None)\<close>\<close>
  "blank_cells [] row_idx col_idx ws = ws"
| "blank_cells (i # rest) row_idx col_idx ws =
     blank_cells rest row_idx col_idx (ws_cell row_idx (col_idx + i) Blank plain ws)"

fun data_cells ::
  "(string \<times> 'f summary_entry) list \<Rightarrow> string list \<Rightarrow> nat \<Rightarrow> nat \<Rightarrow> 'f worksheet
   \<Rightarrow> 'f worksheet" where
  "data_cells d [] row_idx col_idx ws = ws"
| "data_cells d (type_val # rest) row_idx col_idx ws =
     data_cells d rest row_idx (col_idx + 5)
       (case map_of d type_val of
          Some data \<Rightarrow>
            ws_cell row_idx (col_idx + 4) (opt_text (sum_converged data)) plain
              (ws_cell row_idx (col_idx + 3) (opt_number (sum_her_all data)) plain
                (ws_cell row_idx (col_idx + 2) (opt_number (sum_her_k3 data)) plain
                  (ws_cell row_idx (col_idx + 1) (opt_number (sum_her_k2 data)) plain
                    (ws_cell row_idx col_idx (opt_number (sum_her_k1 data)) plain ws))))
        | None \<Rightarrow> blank_cells [0, 1, 2, 3, 4] row_idx col_idx ws)"

fun data_rows ::
  "(string \<times> (string \<times> 'f summary_entry) list) list \<Rightarrow> string list \<Rightarrow> string list \<Rightarrow> nat
   \<Rightarrow> 'f worksheet \<Rightarrow> 'f worksheet" where
  \<comment> \<open>the loop over the sorted phenotypes; each of them is a key of the dictionary\<close>
  "data_rows sd [] all_types row_idx ws = ws"
| "data_rows sd (phenotype # rest) all_types row_idx ws =
     data_rows sd rest all_types (row_idx + 1)
       (data_cells (case map_of sd phenotype of None \<Rightarrow> [] | Some d \<Rightarrow> d) all_types row_idx 2
          (ws_cell row_idx 1 (Text phenotype) plain ws))"

definition summary_sheet ::
  "(string \<times> (string \<times> 'f summary_entry) list) list \<Rightarrow> 'f worksheet" where
  "summary_sheet sd =
     (let all_types = all_types_of sd;
          ws1 = ws_cell 1 1 (Text ''Phenotype'') plain (new_sheet ''Heritability Summary'');
          ws2 = header_row1 all_types 2 ws1;
          ws3 = ws_cell 2 1 (Text ''Phenotype'') bold ws2;
          ws4 = header_row2 all_types 2 ws3
      in data_rows sd (sort (map fst sd)) all_types 3 ws4)"

text \<open>
  \<^verbatim>\<open>pd.DataFrame(detailed_data)\<close> on a list of dictionaries: the columns are the keys in
  the order of their first appearance, so a list without dictionaries gives a frame
  without columns; a row holds the values of its dictionary by column. How pandas
  stores an absent value (\<^verbatim>\<open>None\<close> or a not-a-number) is not told apart: both are
  \<open>Blank\<close>.
\<close>

definition data_frame_of :: "'f detailed_row list \<Rightarrow> 'f data_frame" where
  "data_frame_of records =
     (let cols = rev (remdups (rev (concat (map (map fst) records))))
      in \<lparr>df_columns = cols,
          df_rows = map (\<lambda>r. map (\<lambda>c. case map_of r c of None \<Rightarrow> Blank | Some v \<Rightarrow> v) cols)
                      records\<rparr>)"

fun write_header :: "string list \<Rightarrow> nat \<Rightarrow> 'f worksheet \<Rightarrow> 'f worksheet" where
  \<comment> \<open>\<^verbatim>\<open>for c_idx, col_name in enumerate(df_detailed.columns, start=1)\<close>\<close>
  "write_header [] c_idx ws = ws"
| "write_header (col_name # rest) c_idx ws =
     write_header rest (c_idx + 1) (ws_cell 1 c_idx (Text col_name) bold ws)"

fun write_row :: "'f cell_value list \<Rightarrow> nat \<Rightarrow> nat \<Rightarrow> 'f worksheet \<Rightarrow> 'f worksheet" where
  "write_row [] r_idx c_idx ws = ws"
| "write_row (v # rest) r_idx c_idx ws =
     write_row rest r_idx (c_idx + 1) (ws_cell r_idx c_idx v plain ws)"

fun write_rows :: "'f cell_value list list \<Rightarrow> nat \<Rightarrow> 'f worksheet \<Rightarrow> 'f worksheet" where
  \<comment> \<open>\<^verbatim>\<open>for r_idx, row in enumerate(df_detailed.itertuples(index=False), start=2)\<close>\<close>
  "write_rows [] r_idx ws = ws"
| "write_rows (row # rest) r_idx ws = write_rows rest (r_idx + 1) (write_row row r_idx 1 ws)"

definition detailed_sheet :: "'f data_frame \<Rightarrow> 'f worksheet" where
  "detailed_sheet df =
     write_rows (df_rows df) 2
       (write_header (df_columns df) 1 (new_sheet ''Detailed Information''))"

definition render_workbook :: "'f tables \<Rightarrow> 'f workbook" where
  "render_workbook tb =
     \<lparr>wb_summary = summary_sheet (summary_data_dict tb),
      wb_detailed = detailed_sheet (data_frame_of (detailed_data tb))\<rparr>"

text \<open>
  The layout the detailed sheet is meant to have: a bold header in row 1, then the rows of
  the table from row 2 on, each cell in the column of its position.
\<close>

definition detail_columns :: "string list" where
  "detail_columns =
     [''Phenotype'', ''Type'', ''Component'', ''Converged'', ''Heritability'', ''SE'', ''Size'',
      ''Mega_Intensity'', ''SE_2'']"

definition header_cells :: "string list \<Rightarrow> ((nat \<times> nat) \<times> 'f cell) list" where
  "header_cells cols =
     map (\<lambda>cn. ((1, fst cn), bold (new_cell\<lparr>cell_value := Text (snd cn)\<rparr>))) (enumerate 1 cols)"

definition row_cells :: "nat \<Rightarrow> 'f cell_value list \<Rightarrow> ((nat \<times> nat) \<times> 'f cell) list" where
  "row_cells r vs =
     map (\<lambda>cv. ((r, fst cv), new_cell\<lparr>cell_value := snd cv\<rparr>)) (enumerate 1 vs)"

definition table_cells :: "'f cell_value list list \<Rightarrow> ((nat \<times> nat) \<times> 'f cell) list" where
  "table_cells rows = concat (map (\<lambda>rv. row_cells (fst rv) (snd rv)) (enumerate 2 rows))"

subsection \<open>The run\<close>

definition main :: "(string \<Rightarrow> 'f option) \<Rightarrow> env \<Rightarrow> args \<Rightarrow> 'f run" where
  "main to_float e a =
     (let reml_files = glob_files e (arg_pattern a)
      in if reml_files = []
         then \<lparr>events = [Print (''Warning: No files found matching pattern ''
                                  @ [CHR 0x27] @ arg_pattern a @ [CHR 0x27])],
               outcome = Returned\<rparr>
         else
           (case build_tables to_float (file_text e) reml_files
                   [Print (''Found '' @ str_nat (length reml_files) @ '' .reml files'')] of
              (tb, tr, Some err) \<Rightarrow> \<lparr>events = tr, outcome = Raised err\<rparr>
            | (tb, tr, None) \<Rightarrow>
                if \<not> libs_installed e
                then \<lparr>events = tr @ [Print (''Error: openpyxl and pandas are required. ''
                         @ ''Please install them with: pip install pandas openpyxl'')],
                      outcome = Returned\<rparr>
                else if \<not> writable e (arg_output a)
                then \<lparr>events = tr, outcome = Raised (IOError (arg_output a))\<rparr>
                else
                  \<lparr>events = tr @
                     [Save (arg_output a) (render_workbook tb),
                      Print (''Successfully wrote results to '' @ arg_output a),
                      Print (''  - Summary sheet: '' @ str_nat (length (summary_data_dict tb))
                             @ '' rows (with merged headers)''),
                      Print (''  - Detailed sheet: '' @ str_nat (length (detailed_data tb))
                             @ '' rows'')],
                   outcome = Returned\<rparr>))"

fun saved_workbooks :: "'f event list \<Rightarrow> (string \<times> 'f workbook) list" where
  \<comment> \<open>the documents a run wrote, with their paths\<close>
  "saved_workbooks [] = []"
| "saved_workbooks (Save path wb # rest) = (path, wb) # saved_workbooks rest"
| "saved_workbooks (Print msg # rest) = saved_workbooks rest"
| "saved_workbooks (Open path # rest) = saved_workbooks rest"

fun opened_files :: "'f event list \<Rightarrow> string list" where
  \<comment> \<open>the input files a run opened, in order\<close>
  "opened_files [] = []"
| "opened_files (Open path # rest) = path # opened_files rest"
| "opened_files (Print msg # rest) = opened_files rest"
| "opened_files (Save path wb # rest) = opened_files rest"

subsection \<open>A conversion for the examples\<close>

text \<open>
  The examples below need one concrete conversion. \<open>plain_decimal\<close> reads the tokens
  \<^verbatim>\<open>digits\<close> and \<^verbatim>\<open>digits.digits\<close> as the rational they denote and rejects every
  other token. (Python's \<^verbatim>\<open>float\<close> accepts more tokens and rounds to binary64; the
  examples use only tokens on which both agree about acceptance.)
\<close>

definition is_digit :: "char \<Rightarrow> bool" where
  "is_digit c = (48 \<le> (of_char c :: nat) \<and> (of_char c :: nat) \<le> 57)"

definition nat_of_digits :: "string \<Rightarrow> nat" where
  "nat_of_digits s = foldl (\<lambda>n c. 10 * n + (of_char c - 48)) 0 s"

definition plain_decimal :: "string \<Rightarrow> rat option" where
  "plain_decimal s =
     (let ip = takeWhile (\<lambda>c. c \<noteq> CHR ''.'') s;
          fp = drop (Suc (length ip)) s
      in if ip \<noteq> [] \<and> list_all is_digit ip \<and> list_all is_digit fp
            \<and> (length ip = length s \<or> fp \<noteq> [])
         then Some (of_nat (nat_of_digits ip) + of_nat (nat_of_digits fp) / 10 ^ length fp)
         else None)"

subsection \<open>Reports and surroundings for the examples\<close>

definition report_k1 :: string where
  "report_k1 =
     ''Converged YES'' @ [LF] @
     ''Component Heritability SE Size Mega_Intensity SE'' @ [LF] @
     ''Her_K1 0.5 0.1 100 1.0 0.1'' @ [LF]"

definition report_all :: string where
  "report_all =
     ''Converged NO'' @ [LF] @
     ''Component Heritability SE Size Mega_Intensity SE'' @ [LF] @
     ''Her_All 0.3 NA 50 0.9 0.05'' @ [LF]"

definition report_bare :: string where
  "report_bare = ''Converged YES'' @ [LF]"

definition example_env :: "(string \<times> string) list \<Rightarrow> bool \<Rightarrow> env" where
  \<comment> \<open>every pattern matches the listed files, in the listed order; they can be read, and
      every output path can be written\<close>
  "example_env files libs =
     \<lparr>glob_files = (\<lambda>pat. map fst files), file_text = map_of files,
      libs_installed = libs, writable = (\<lambda>path. True)\<rparr>"

definition example_args :: args where
  "example_args = \<lparr>arg_pattern = ''runs/*/*.reml'', arg_output = ''out.xlsx''\<rparr>"

section \<open>Properties of the filename decoder\<close>

lemma str_replace_absent:
  "\<not> sublist old s \<Longrightarrow> str_replace old new s = s"
proof (induction s)
  case Nil
  then show ?case by simp
next
  case (Cons c cs)
  have "\<not> prefix old (c # cs)"
    using Cons.prems prefix_imp_sublist by blast
  moreover have "\<not> sublist old cs"
    using Cons.prems by (meson sublist_Cons_right)
  ultimately show ?case using Cons.IH by simp
qed

lemma no_straddle:
  assumes "d \<notin> set rest" and "prefix (d # rest) (s @ d # rest)" and "s \<noteq> []"
  shows "prefix (d # rest) s"
proof (rule ccontr)
  assume np: "\<not> prefix (d # rest) s"
  from assms(2) have "prefix (d # rest) s \<or> prefix s (d # rest)"
    by (meson prefix_append prefix_same_cases prefix_order.order_refl)
  with np have ps: "prefix s (d # rest)" by simp
  then obtain t where t: "d # rest = s @ t" by (auto simp: prefix_def)
  from assms(3) t obtain s' where s: "s = d # s'" by (cases s) auto
  with t have rest: "rest = s' @ t" by simp
  from assms(2) t have "prefix (s @ t) (s @ d # rest)" by simp
  then have "prefix t (d # rest)" by simp
  moreover have "t \<noteq> []" using np t by (metis append_Nil2 prefix_order.order_refl)
  ultimately have "hd t = d" by (cases t) auto
  with \<open>t \<noteq> []\<close> have "d \<in> set t" by (cases t) auto
  with rest assms(1) show False by simp
qed

lemma str_replace_suffix:
  assumes "old = d # rest" and "d \<notin> set rest" and "\<not> sublist old s"
  shows "str_replace old [] (s @ old) = s"
  using assms(3)
proof (induction s)
  case Nil
  show ?case by (simp add: assms(1))
next
  case (Cons c cs)
  have "\<not> prefix old ((c # cs) @ old)"
    using no_straddle [OF assms(2), of "c # cs"] Cons.prems prefix_imp_sublist
    unfolding assms(1) by blast
  then have np: "\<not> prefix old (c # cs @ old)" by simp
  have "\<not> sublist old cs"
    using Cons.prems by (meson sublist_Cons_right)
  then have ih: "str_replace old [] (cs @ old) = cs" by (rule Cons.IH)
  have "str_replace old [] (c # cs @ old) = c # str_replace old [] (cs @ old)"
    using np by (simp only: str_replace.simps if_False)
  with ih show ?case by simp
qed

lemma basename_append:
  assumes "CHR ''/'' \<notin> set b" and "dir = [] \<or> last dir = CHR ''/''"
  shows "basename (dir @ b) = b"
proof -
  have t: "takeWhile (\<lambda>c. c \<noteq> CHR ''/'') (rev dir) = []"
    using assms(2) by (cases "rev dir") (auto simp: last_rev)
  have "takeWhile (\<lambda>c. c \<noteq> CHR ''/'') (rev b @ rev dir)
          = rev b @ takeWhile (\<lambda>c. c \<noteq> CHR ''/'') (rev dir)"
    by (rule takeWhile_append2) (use assms(1) in auto)
  with t show ?thesis by (simp add: basename_def)
qed

lemma rsplit1_last:
  assumes "sep \<notin> set Q"
  shows "rsplit1 sep (P @ sep # Q) = [P, Q]"
proof -
  have "takeWhile (\<lambda>c. c \<noteq> sep) (rev Q @ sep # rev P)
          = rev Q @ takeWhile (\<lambda>c. c \<noteq> sep) (sep # rev P)"
    by (rule takeWhile_append2) (use assms in auto)
  moreover have "dropWhile (\<lambda>c. c \<noteq> sep) (rev Q @ sep # rev P)
          = dropWhile (\<lambda>c. c \<noteq> sep) (sep # rev P)"
    by (rule dropWhile_append2) (use assms in auto)
  ultimately show ?thesis by (simp add: rsplit1_def)
qed

text \<open>
  Where the base name holds \<^verbatim>\<open>.reml\<close> at its end only, the decoder splits at the last dot.
\<close>

lemma parse_filename_regular:
  assumes "CHR ''/'' \<notin> set (P @ ''.'' @ Q)" and "dir = [] \<or> last dir = CHR ''/''"
    and "CHR ''.'' \<notin> set Q" and "\<not> sublist ''.reml'' (P @ ''.'' @ Q)"
  shows "parse_filename (dir @ P @ ''.'' @ Q @ ''.reml'') = (P, Q)"
proof -
  have "CHR ''/'' \<notin> set (P @ ''.'' @ Q @ ''.reml'')"
    using assms(1) by simp
  then have b: "basename (dir @ P @ ''.'' @ Q @ ''.reml'') = P @ ''.'' @ Q @ ''.reml''"
    using assms(2) by (rule basename_append)
  have "str_replace ''.reml'' [] ((P @ ''.'' @ Q) @ ''.reml'') = P @ ''.'' @ Q"
    using assms(4) by (intro str_replace_suffix [where d = "CHR ''.''" and rest = "''reml''"]) simp_all
  then have r: "str_replace ''.reml'' [] (P @ ''.'' @ Q @ ''.reml'') = P @ ''.'' @ Q"
    by simp
  have s: "rsplit1 CHR ''.'' (P @ ''.'' @ Q) = [P, Q]"
    using rsplit1_last [OF assms(3), of P] by simp
  show ?thesis
    unfolding parse_filename_def b r Let_def s by simp
qed

lemma parse_filename_example: "parse_filename ''out/GYP_BLUP.SV.reml'' = (''GYP_BLUP'', ''SV'')"
  using parse_filename_regular [of "''GYP_BLUP''" "''SV''" "''out/''"]
  by (simp add: sublist_code)

lemma parse_filename_category_reml:
  "parse_filename ''out/HT.reml.reml'' = (''HT'', ''UNKNOWN'')"
  by (simp add: parse_filename_def basename_def rsplit1_def re_match_name_def)

text \<open>
  C1. The decoder is claimed to return phenotype \<open>P\<close> and category \<open>Q\<close> for every base
  name \<open>P.Q.reml\<close>, also when \<open>P\<close> holds the extension as a substring. The decoder
  removes every occurrence of \<^verbatim>\<open>.reml\<close> from the base name, not only the trailing
  one: for \<^verbatim>\<open>out/GYP.reml_v2.SV.reml\<close> (phenotype \<^verbatim>\<open>GYP.reml_v2\<close>, category
  \<^verbatim>\<open>SV\<close>) it returns the phenotype \<^verbatim>\<open>GYP_v2\<close>.
\<close>

theorem parse_filename_inner_extension:
  "parse_filename ''out/GYP.reml_v2.SV.reml'' = (''GYP_v2'', ''SV'')
   \<and> parse_filename ''out/GYP.reml_v2.SV.reml'' \<noteq> (''GYP.reml_v2'', ''SV'')"
  by (simp add: parse_filename_def basename_def rsplit1_def)

section \<open>Properties of the report parser\<close>

lemma pad_values_eq: "pad_values xs = xs @ replicate (5 - length xs) None"
proof (induction xs rule: pad_values.induct)
  case (1 parsed)
  show ?case
  proof (cases "length parsed < 5")
    case True
    then have "pad_values parsed = pad_values (parsed @ [None])"
      by (subst pad_values.simps) simp
    also have "\<dots> = (parsed @ [None]) @ replicate (5 - length (parsed @ [None])) None"
      using 1 True by simp
    also have "\<dots> = parsed @ replicate (Suc (4 - length parsed)) None"
      by simp
    also have "Suc (4 - length parsed) = 5 - length parsed"
      using True by arith
    finally show ?thesis .
  next
    case False
    then show ?thesis by (subst pad_values.simps) simp
  qed
qed

lemma length_parse_values: "length (parse_values tf vals) = min 5 (length vals)"
  by (simp add: parse_values_def min_def)

lemma length_pad_parse: "length (pad_values (parse_values tf vals)) = 5"
  by (simp add: pad_values_eq length_parse_values)

lemma split_ws_Nil: "split_ws [] = []"
  by (subst split_ws.simps) simp

lemma component_line_tokens:
  assumes "split_ws (strip raw) = label # vals" and "vals \<noteq> []"
  shows "component_line tf raw r = store_component label (pad_values (parse_values tf vals)) r"
proof -
  have "strip raw \<noteq> []" using assms(1) split_ws_Nil by auto
  moreover have "\<not> length (split_ws (strip raw)) < 2"
    using assms by (cases vals) simp_all
  ultimately show ?thesis
    using assms(1) by (simp add: component_line_def Let_def)
qed

lemma component_line_skip:
  "length (split_ws (strip raw)) < 2 \<Longrightarrow> component_line tf raw r = r"
  by (simp add: component_line_def Let_def)

lemma component_of_store_same:
  "label \<in> set component_labels \<Longrightarrow> component_of label (store_component label row r) = Some row"
  by (auto simp: component_labels_def component_of_def store_component_def)

lemma component_of_store_other:
  "c \<noteq> label \<Longrightarrow> component_of label (store_component c row r) = component_of label r"
  by (auto simp: component_of_def store_component_def)

lemma component_line_other:
  assumes "\<not> (\<exists>vs. vs \<noteq> [] \<and> split_ws (strip l) = label # vs)"
  shows "component_of label (component_line tf l r) = component_of label r"
proof (cases "length (split_ws (strip l)) < 2")
  case True
  then show ?thesis by (simp add: component_line_skip)
next
  case False
  then obtain c v vs where p: "split_ws (strip l) = c # v # vs"
    by (cases "split_ws (strip l)"; cases "tl (split_ws (strip l))") auto
  with assms have "c \<noteq> label" by auto
  moreover have "component_line tf l r = store_component c (pad_values (parse_values tf (v # vs))) r"
    using p by (intro component_line_tokens) simp_all
  ultimately show ?thesis by (simp add: component_of_store_other)
qed

lemma fold_component_line_other:
  "\<forall>l\<in>set ls. \<not> (\<exists>vs. vs \<noteq> [] \<and> split_ws (strip l) = label # vs) \<Longrightarrow>
   component_of label (fold (component_line tf) ls r) = component_of label r"
  by (induction ls arbitrary: r) (simp_all add: component_line_other)

lemma rows5_store: "rows5 r \<Longrightarrow> length row = 5 \<Longrightarrow> rows5 (store_component c row r)"
  by (auto simp: rows5_def store_component_def)

lemma rows5_component_line: "rows5 r \<Longrightarrow> rows5 (component_line tf l r)"
  by (simp add: component_line_def Let_def rows5_store length_pad_parse)

lemma rows5_fold: "rows5 r \<Longrightarrow> rows5 (fold (component_line tf) ls r)"
  by (induction ls arbitrary: r) (simp_all add: rows5_component_line)

lemma rows5_parse_reml_lines: "rows5 (parse_reml_lines tf lines)"
proof -
  have "rows5 (empty_result\<lparr>converged := c\<rparr> :: 'a file_result)" for c
    by (simp add: rows5_def empty_result_def)
  then show ?thesis
    by (simp add: parse_reml_lines_def Let_def rows5_fold split: option.splits)
qed

lemma converged_store: "converged (store_component c row r) = converged r"
  by (simp add: store_component_def)

lemma converged_component_line: "converged (component_line tf l r) = converged r"
  by (simp add: component_line_def Let_def converged_store)

lemma converged_fold: "converged (fold (component_line tf) ls r) = converged r"
  by (induction ls arbitrary: r) (simp_all add: converged_component_line)

lemma converged_parse_reml_lines:
  "converged (parse_reml_lines tf lines) = find_converged lines"
  by (simp add: parse_reml_lines_def Let_def converged_fold empty_result_def split: option.splits)

lemma find_converged_first:
  "\<forall>l\<in>set pre. \<not> startswith l ''Converged'' \<Longrightarrow> startswith first ''Converged'' \<Longrightarrow>
   find_converged (pre @ first # post) =
     (if 2 \<le> length (split_ws (strip first)) then Some (split_ws (strip first) ! 1) else None)"
  by (induction pre) (simp_all add: Let_def)

text \<open>
  C2, as claimed: a line of the component section that holds a label and no value token
  gives a row of absent values for that label. It does not: a line with fewer than two
  tokens is passed over and nothing is stored.
\<close>

theorem label_only_line_stores_nothing:
  "split_ws (strip (''Her_K1'' @ [LF])) = [''Her_K1'']
   \<and> component_of ''Her_K1''
         (parse_reml_lines plain_decimal
            [''Component Heritability SE'' @ [LF], ''Her_K1'' @ [LF]]) = None"
  by code_simp

text \<open>
  C2, amended: a line of the component section that holds a recognised label followed by
  at least one and fewer than five value tokens stores for that label a row of five
  entries, the parsed tokens followed by absent values.
\<close>

theorem short_component_line_padded:
  assumes "split_ws (strip raw) = label # vals" and "vals \<noteq> []" and "length vals < 5"
    and "label \<in> set component_labels"
  shows "component_of label (component_line tf raw r) =
           Some (map (parse_value tf) vals @ replicate (5 - length vals) None)"
proof -
  have "component_line tf raw r = store_component label (pad_values (parse_values tf vals)) r"
    using assms(1,2) by (rule component_line_tokens)
  moreover have "pad_values (parse_values tf vals) =
      map (parse_value tf) vals @ replicate (5 - length vals) None"
    using assms(3) by (simp add: pad_values_eq parse_values_def)
  ultimately show ?thesis
    using assms(4) by (simp add: component_of_store_same)
qed

theorem short_component_line_padded_witness:
  "component_of ''Her_K2'' (component_line plain_decimal (''Her_K2 0.5 NA'' @ [LF]) empty_result)
     = Some [Some (1 / 2), None, None, None, None]"
proof -
  have h1: "split_ws (strip (''Her_K2 0.5 NA'' @ [LF])) = ''Her_K2'' # [''0.5'', ''NA'']"
    by code_simp
  have h2: "[''0.5'', ''NA''] \<noteq> []" by simp
  have h3: "length [''0.5'', ''NA''] < 5" by simp
  have h4: "''Her_K2'' \<in> set component_labels" by (simp add: component_labels_def)
  have v: "map (parse_value plain_decimal) [''0.5'', ''NA''] @ replicate (5 - length [''0.5'', ''NA'']) None
        = [Some (1 / 2), None, None, None, None]"
    by code_simp
  show ?thesis
    using short_component_line_padded [OF h1 h2 h3 h4, of plain_decimal empty_result] v
    by simp
qed

text \<open>
  C6. For a component line with at least one value token, the row that is stored holds
  at each of its five positions: an absent value where the token is \<^verbatim>\<open>NA\<close>; what the
  conversion gives for any other token, the number where it succeeds and an absent value
  where it fails; an absent value past the last token. A failed conversion does not end
  the processing: the line still stores its row, and every position is decided by its
  own token alone.
\<close>

theorem value_tokens_parsed:
  assumes "split_ws (strip raw) = label # vals" and "vals \<noteq> []" and "i < 5"
  shows "component_line tf raw r = store_component label (pad_values (parse_values tf vals)) r
         \<and> pad_values (parse_values tf vals) ! i =
             (if i < length vals
              then (if vals ! i = ''NA'' then None else tf (vals ! i))
              else None)"
proof
  show "component_line tf raw r = store_component label (pad_values (parse_values tf vals)) r"
    using assms(1,2) by (rule component_line_tokens)
next
  show "pad_values (parse_values tf vals) ! i =
          (if i < length vals then (if vals ! i = ''NA'' then None else tf (vals ! i)) else None)"
  proof (cases "i < length vals")
    case True
    with assms(3) have "i < length (parse_values tf vals)"
      by (simp add: length_parse_values)
    then have "pad_values (parse_values tf vals) ! i = parse_values tf vals ! i"
      by (simp add: pad_values_eq nth_append)
    also have "\<dots> = parse_value tf (vals ! i)"
      using True assms(3) by (simp add: parse_values_def)
    finally show ?thesis using True by (simp add: parse_value_def)
  next
    case False
    then have len: "length (parse_values tf vals) = length vals"
      using assms(3) by (simp add: length_parse_values)
    have "pad_values (parse_values tf vals) ! i = replicate (5 - length vals) None ! (i - length vals)"
      using False len by (simp add: pad_values_eq nth_append)
    also have "\<dots> = None"
      using False assms(3) by simp
    finally show ?thesis using False by simp
  qed
qed

theorem value_tokens_parsed_witness:
  "component_line plain_decimal (''Her_K1 0.5 NA abc 7'' @ [LF]) empty_result
     = store_component ''Her_K1'' [Some (1 / 2), None, None, Some 7, None] empty_result
   \<and> [Some (1 / 2), None, None, Some 7, None :: rat option] ! 1 = None"
proof -
  have h1: "split_ws (strip (''Her_K1 0.5 NA abc 7'' @ [LF]))
              = ''Her_K1'' # [''0.5'', ''NA'', ''abc'', ''7'']"
    by code_simp
  have h2: "[''0.5'', ''NA'', ''abc'', ''7''] \<noteq> []" by simp
  have h3: "(1::nat) < 5" by simp
  have v: "pad_values (parse_values plain_decimal [''0.5'', ''NA'', ''abc'', ''7''])
             = [Some (1 / 2), None, None, Some 7, None]"
    by code_simp
  show ?thesis
    using value_tokens_parsed [OF h1 h2 h3, of plain_decimal empty_result] v
    by simp
qed

text \<open>
  C8. Every row that the parser stores in the result of a file has exactly five entries,
  whatever the text of the file.
\<close>

theorem parsed_rows_have_five_entries:
  "parse_reml_file tf fs filepath = Inr r \<Longrightarrow>
   Some row \<in> {her_k1 r, her_k2 r, her_k3 r, her_all r} \<Longrightarrow> length row = 5"
  using rows5_parse_reml_lines [of tf]
  by (auto simp: parse_reml_file_def rows5_def split: option.splits)

theorem parsed_rows_have_five_entries_witness:
  "her_k1 (parse_reml_lines plain_decimal (readlines report_k1))
     = Some [Some (1 / 2), Some (1 / 10), Some 100, Some 1, Some (1 / 10)]
   \<and> length [Some (1 / 2), Some (1 / 10), Some 100, Some 1, Some (1 / 10) :: rat option] = 5"
proof -
  let ?r = "parse_reml_lines plain_decimal (readlines report_k1)"
  have h1: "parse_reml_file plain_decimal (map_of [(''runs/a/P.X.reml'', report_k1)])
              ''runs/a/P.X.reml'' = Inr ?r"
    by (simp add: parse_reml_file_def)
  have k1: "her_k1 ?r = Some [Some (1 / 2), Some (1 / 10), Some 100, Some 1, Some (1 / 10)]"
    by code_simp
  have h2: "Some [Some (1 / 2), Some (1 / 10), Some 100, Some 1, Some (1 / 10)]
              \<in> {her_k1 ?r, her_k2 ?r, her_k3 ?r, her_all ?r}"
    using k1 by simp
  show ?thesis
    using parsed_rows_have_five_entries [OF h1 h2] k1 by simp
qed

text \<open>
  C9, as claimed: of several lines that bear the same recognised label, the last one
  gives the stored row. It does not when that last line holds the label alone: the line
  is passed over and the row of the earlier line stays.
\<close>

theorem label_only_line_keeps_earlier_row:
  "component_of ''Her_K1''
     (parse_reml_lines plain_decimal
        [''Component Heritability SE'' @ [LF], ''Her_K1 0.5'' @ [LF], ''Her_K1'' @ [LF]])
     = Some (pad_values (parse_values plain_decimal
               (tl (split_ws (strip (''Her_K1 0.5'' @ [LF]))))))
   \<and> component_of ''Her_K1''
         (parse_reml_lines plain_decimal
            [''Component Heritability SE'' @ [LF], ''Her_K1 0.5'' @ [LF], ''Her_K1'' @ [LF]])
       \<noteq> Some (pad_values (parse_values plain_decimal
                  (tl (split_ws (strip (''Her_K1'' @ [LF]))))))"
  by code_simp

text \<open>
  C9, amended: the stored row of a recognised label is the one parsed from the last line
  of the component section that bears the label followed by at least one value token;
  later lines of that kind overwrite earlier ones.
\<close>

theorem last_component_line_wins:
  assumes "find_component_start 0 lines = Some i"
    and "drop (Suc i) lines = before @ raw # after"
    and "split_ws (strip raw) = label # vals" and "vals \<noteq> []"
    and "label \<in> set component_labels"
    and "\<forall>l\<in>set after. \<not> (\<exists>vs. vs \<noteq> [] \<and> split_ws (strip l) = label # vs)"
  shows "component_of label (parse_reml_lines tf lines) = Some (pad_values (parse_values tf vals))"
proof -
  let ?r0 = "empty_result\<lparr>converged := find_converged lines\<rparr> :: 'a file_result"
  let ?r1 = "fold (component_line tf) before ?r0"
  have "parse_reml_lines tf lines = fold (component_line tf) after (component_line tf raw ?r1)"
    using assms(1,2) by (simp add: parse_reml_lines_def Let_def)
  then have "component_of label (parse_reml_lines tf lines) = component_of label (component_line tf raw ?r1)"
    using assms(6) by (simp add: fold_component_line_other)
  also have "\<dots> = Some (pad_values (parse_values tf vals))"
    using assms(3,4,5) by (simp add: component_line_tokens component_of_store_same)
  finally show ?thesis .
qed

theorem last_component_line_wins_witness:
  "component_of ''Her_K1''
     (parse_reml_lines plain_decimal
        [''Component Heritability SE'' @ [LF], ''Her_K1 0.5'' @ [LF], ''Her_K1 0.25 7'' @ [LF],
         ''Her_K1'' @ [LF]])
     = Some [Some (1 / 4), Some 7, None, None, None]"
proof -
  let ?lines = "[''Component Heritability SE'' @ [LF], ''Her_K1 0.5'' @ [LF],
                 ''Her_K1 0.25 7'' @ [LF], ''Her_K1'' @ [LF]]"
  have h1: "find_component_start 0 ?lines = Some 0"
    by (simp add: startswith_def)
  have h2: "drop (Suc 0) ?lines = [''Her_K1 0.5'' @ [LF]] @ (''Her_K1 0.25 7'' @ [LF]) # [''Her_K1'' @ [LF]]"
    by simp
  have h3: "split_ws (strip (''Her_K1 0.25 7'' @ [LF])) = ''Her_K1'' # [''0.25'', ''7'']"
    by code_simp
  have h4: "[''0.25'', ''7''] \<noteq> []" by simp
  have h5: "''Her_K1'' \<in> set component_labels" by (simp add: component_labels_def)
  have t: "split_ws (strip (''Her_K1'' @ [LF])) = [''Her_K1'']" by code_simp
  have h6: "\<forall>l\<in>set [''Her_K1'' @ [LF]]. \<not> (\<exists>vs. vs \<noteq> [] \<and> split_ws (strip l) = ''Her_K1'' # vs)"
    using t by simp
  have v: "pad_values (parse_values plain_decimal [''0.25'', ''7'']) = [Some (1 / 4), Some 7, None, None, None]"
    by code_simp
  show ?thesis
    using last_component_line_wins [OF h1 h2 h3 h4 h5 h6, of plain_decimal] v by simp
qed

text \<open>
  C10. Only the first line that starts with \<^verbatim>\<open>Converged\<close> is consulted: when it has
  fewer than two tokens the convergence value is absent, whatever the later lines hold.
\<close>

theorem first_converged_line_only:
  "\<forall>l\<in>set pre. \<not> startswith l ''Converged'' \<Longrightarrow> startswith first ''Converged'' \<Longrightarrow>
   length (split_ws (strip first)) < 2 \<Longrightarrow>
   converged (parse_reml_lines tf (pre @ first # post)) = None"
  by (simp add: converged_parse_reml_lines find_converged_first)

theorem first_converged_line_only_witness:
  "converged (parse_reml_lines plain_decimal
     ([''Num_Kinships 1'' @ [LF]] @ (''Converged'' @ [LF]) # [''Converged YES'' @ [LF]])) = None"
proof -
  have h1: "\<forall>l\<in>set [''Num_Kinships 1'' @ [LF]]. \<not> startswith l ''Converged''"
    by (simp add: startswith_def)
  have h2: "startswith (''Converged'' @ [LF]) ''Converged''"
    by (simp add: startswith_def)
  have t: "split_ws (strip (''Converged'' @ [LF])) = [''Converged'']" by code_simp
  have h3: "length (split_ws (strip (''Converged'' @ [LF]))) < 2"
    using t by simp
  show ?thesis
    by (rule first_converged_line_only [OF h1 h2 h3])
qed

section \<open>Properties of the driver\<close>

lemma detailed_rows_ok:
  "\<forall>(n, d)\<in>set cs. \<forall>row. d = Some row \<longrightarrow> length row = 5 \<Longrightarrow>
   \<exists>dd. detailed_rows ph ty conv cs acc = Inr dd"
proof (induction cs arbitrary: acc)
  case Nil
  then show ?case by simp
next
  case (Cons c cs)
  obtain n d where c: "c = (n, d)" by (cases c)
  show ?case
  proof (cases d)
    case None
    with Cons c show ?thesis by simp
  next
    case (Some row)
    with Cons.prems c have len: "length row = 5" by simp
    then obtain x xs where row: "row = x # xs" by (cases row) auto
    with len have "detailed_row ph ty n conv (x # xs) \<noteq> Inl IndexError"
      by (simp add: detailed_row_def)
    then obtain r where "detailed_row ph ty n conv (x # xs) = Inr r"
      by (auto simp: detailed_row_def split: if_splits)
    with Cons c Some row show ?thesis by simp
  qed
qed

lemma components_rows5:
  "rows5 parsed \<Longrightarrow> \<forall>(n, d)\<in>set (components parsed). \<forall>row. d = Some row \<longrightarrow> length row = 5"
  by (auto simp: rows5_def components_def)

lemma process_file_readable:
  assumes "fs p = Some content" and "parse_filename p = (ph, ty)"
  shows "\<exists>tb'. process_file tf fs p tb = Inr tb' \<and>
           summary_data_dict tb' =
             AList.map_entry ph (AList.update ty
                 (summary_entry_of (parse_reml_lines tf (readlines content))))
               (if map_of (summary_data_dict tb) ph = None
                then AList.update ph [] (summary_data_dict tb) else summary_data_dict tb)"
proof -
  let ?parsed = "parse_reml_lines tf (readlines content)"
  have pf: "parse_reml_file tf fs p = Inr ?parsed"
    using assms(1) by (simp add: parse_reml_file_def)
  obtain dd where
    dd: "detailed_rows ph ty (converged ?parsed) (components ?parsed) (detailed_data tb) = Inr dd"
    using detailed_rows_ok [OF components_rows5 [OF rows5_parse_reml_lines]] by blast
  show ?thesis
    using pf dd assms(2) by (simp add: process_file_def Let_def)
qed

lemma process_file_unreadable:
  "fs p = None \<Longrightarrow> process_file tf fs p tb = Inl (IOError p)"
  by (simp add: process_file_def parse_reml_file_def split: prod.splits)

lemma summary_lookup_process_file:
  assumes "process_file tf fs p tb = Inr tb'" and "parse_reml_file tf fs p = Inr parsed"
  shows "summary_lookup tb' ph ty =
           (if parse_filename p = (ph, ty) then Some (summary_entry_of parsed)
            else summary_lookup tb ph ty)"
proof -
  obtain ph0 ty0 where pn: "parse_filename p = (ph0, ty0)" by (cases "parse_filename p")
  have sd: "summary_data_dict tb' =
             AList.map_entry ph0 (AList.update ty0 (summary_entry_of parsed))
               (if map_of (summary_data_dict tb) ph0 = None
                then AList.update ph0 [] (summary_data_dict tb) else summary_data_dict tb)"
    using assms pn by (auto simp: process_file_def Let_def split: sum.splits)
  show ?thesis
    unfolding summary_lookup_def sd pn
    by (auto simp: map_of_map_entry update_conv' split: option.splits)
qed

lemma process_files_trace:
  "process_files tf fs ps tb tr = (tb', tr', None) \<Longrightarrow> tr' = tr @ map Open ps"
proof (induction ps arbitrary: tb tr)
  case Nil
  then show ?case by simp
next
  case (Cons p ps)
  from Cons.prems obtain tb1 where
    "process_files tf fs ps tb1 (tr @ [Open p]) = (tb', tr', None)"
    by (auto split: sum.splits)
  from Cons.IH [OF this] show ?case by simp
qed

lemma process_files_readable:
  "\<forall>p\<in>set ps. fs p \<noteq> None \<Longrightarrow> \<exists>tb'. process_files tf fs ps tb tr = (tb', tr @ map Open ps, None)"
proof (induction ps arbitrary: tb tr)
  case Nil
  then show ?case by simp
next
  case (Cons p ps)
  then obtain content where c: "fs p = Some content" by auto
  obtain ph ty where pn: "parse_filename p = (ph, ty)" by (cases "parse_filename p")
  from process_file_readable [where fs = fs and tf = tf and tb = tb, OF c pn]
  obtain tb1 where tb1: "process_file tf fs p tb = Inr tb1" by blast
  from Cons.IH [of tb1 "tr @ [Open p]"] Cons.prems
  obtain tb' where "process_files tf fs ps tb1 (tr @ [Open p]) = (tb', (tr @ [Open p]) @ map Open ps, None)"
    by auto
  with tb1 show ?case by simp
qed

lemma process_files_last_wins:
  assumes "process_files tf fs ps tb tr = (tb', tr', None)"
  shows "summary_lookup tb' ph ty =
           (if filter (\<lambda>f. parse_filename f = (ph, ty)) ps = [] then summary_lookup tb ph ty
            else (case parse_reml_file tf fs (last (filter (\<lambda>f. parse_filename f = (ph, ty)) ps)) of
                    Inl e \<Rightarrow> None | Inr parsed \<Rightarrow> Some (summary_entry_of parsed)))"
  using assms
proof (induction ps arbitrary: tb tr)
  case Nil
  then show ?case by simp
next
  case (Cons p ps)
  from Cons.prems obtain tb1 where
    tb1: "process_file tf fs p tb = Inr tb1"
    and rest: "process_files tf fs ps tb1 (tr @ [Open p]) = (tb', tr', None)"
    by (auto split: sum.splits)
  from tb1 obtain parsed where parsed: "parse_reml_file tf fs p = Inr parsed"
    by (auto simp: process_file_def split: prod.splits sum.splits)
  note step = summary_lookup_process_file [OF tb1 parsed, of ph ty]
  note ih = Cons.IH [OF rest]
  show ?case
    using ih step parsed by (auto split: sum.splits)
qed

lemma saved_workbooks_append:
  "saved_workbooks (xs @ ys) = saved_workbooks xs @ saved_workbooks ys"
  by (induction xs rule: saved_workbooks.induct) simp_all

lemma saved_workbooks_Open: "saved_workbooks (map Open ps) = []"
  by (induction ps) simp_all

lemma opened_files_append:
  "opened_files (xs @ ys) = opened_files xs @ opened_files ys"
  by (induction xs rule: opened_files.induct) simp_all

lemma opened_files_Open: "opened_files (map Open ps) = ps"
  by (induction ps) simp_all

text \<open>
  C5. When the pattern matches no file, the run prints one warning, returns normally and
  writes no output file.
\<close>

theorem no_files_warning:
  "glob_files e (arg_pattern a) = [] \<Longrightarrow>
   events (main tf e a) =
     [Print (''Warning: No files found matching pattern '' @ [CHR 0x27] @ arg_pattern a @ [CHR 0x27])]
   \<and> outcome (main tf e a) = Returned
   \<and> saved_workbooks (events (main tf e a)) = []"
  by (simp add: main_def)

theorem no_files_warning_witness:
  "events (main plain_decimal (example_env [] True) example_args) =
     [Print (''Warning: No files found matching pattern '' @ [CHR 0x27] @ ''runs/*/*.reml'' @ [CHR 0x27])]
   \<and> outcome (main plain_decimal (example_env [] True) example_args) = Returned
   \<and> saved_workbooks (events (main plain_decimal (example_env [] True) example_args)) = []"
proof -
  have h: "glob_files (example_env [] True) (arg_pattern example_args) = []"
    by (simp add: example_env_def)
  show ?thesis
    using no_files_warning [OF h, of plain_decimal] by (simp add: example_args_def)
qed

text \<open>
  C3, as claimed: when the two spreadsheet libraries are missing, the run finds it out at
  its start, before an input file is read, and ends with a fatal error. It does not: the
  import is tried after the loop over the files, so with one matching file the file is
  opened and parsed first; then the message is printed and \<^verbatim>\<open>main\<close> returns normally.
\<close>

theorem missing_libs_found_after_reading:
  "\<not> libs_installed (example_env [(''runs/a/P.X.reml'', report_k1)] False)
   \<and> events (main plain_decimal (example_env [(''runs/a/P.X.reml'', report_k1)] False) example_args)
       = [Print ''Found 1 .reml files'', Open ''runs/a/P.X.reml'',
          Print (''Error: openpyxl and pandas are required. ''
                 @ ''Please install them with: pip install pandas openpyxl'')]
   \<and> outcome (main plain_decimal (example_env [(''runs/a/P.X.reml'', report_k1)] False) example_args)
       = Returned"
  by code_simp

text \<open>
  C3, amended: when the two spreadsheet libraries are missing and the pattern matches at
  least one file, each of them readable, the run opens and parses every matched file in
  sorted order, then prints the error message and returns normally; no output file is
  written.
\<close>

theorem missing_libs_reported_after_parsing:
  assumes "\<not> libs_installed e"
    and "glob_files e (arg_pattern a) \<noteq> []"
    and "\<forall>f\<in>set (glob_files e (arg_pattern a)). file_text e f \<noteq> None"
  shows "events (main tf e a) =
           Print (''Found '' @ str_nat (length (glob_files e (arg_pattern a))) @ '' .reml files'')
           # map Open (sort (glob_files e (arg_pattern a)))
           @ [Print (''Error: openpyxl and pandas are required. ''
                     @ ''Please install them with: pip install pandas openpyxl'')]
         \<and> outcome (main tf e a) = Returned
         \<and> saved_workbooks (events (main tf e a)) = []"
proof -
  let ?files = "glob_files e (arg_pattern a)"
  let ?tr0 = "[Print (''Found '' @ str_nat (length ?files) @ '' .reml files'')] :: 'a event list"
  have "\<forall>f\<in>set (sort ?files). file_text e f \<noteq> None"
    using assms(3) by simp
  from process_files_readable [OF this, of tf empty_tables ?tr0]
  obtain tb where "build_tables tf (file_text e) ?files ?tr0 = (tb, ?tr0 @ map Open (sort ?files), None)"
    by (auto simp: build_tables_def)
  then show ?thesis
    using assms(1,2)
    by (simp add: main_def Let_def saved_workbooks_append saved_workbooks_Open)
qed

theorem missing_libs_reported_after_parsing_witness:
  "events (main plain_decimal
             (example_env [(''runs/b/P.X.reml'', report_all), (''runs/a/P.X.reml'', report_k1)] False)
             example_args)
     = [Print ''Found 2 .reml files'', Open ''runs/a/P.X.reml'', Open ''runs/b/P.X.reml'',
        Print (''Error: openpyxl and pandas are required. ''
               @ ''Please install them with: pip install pandas openpyxl'')]"
proof -
  let ?e = "example_env [(''runs/b/P.X.reml'', report_all), (''runs/a/P.X.reml'', report_k1)] False"
  have g: "glob_files ?e (arg_pattern example_args) = [''runs/b/P.X.reml'', ''runs/a/P.X.reml'']"
    by (simp add: example_env_def)
  have h1: "\<not> libs_installed ?e" by (simp add: example_env_def)
  have h2: "glob_files ?e (arg_pattern example_args) \<noteq> []" by (simp add: g)
  have h3: "\<forall>f\<in>set (glob_files ?e (arg_pattern example_args)). file_text ?e f \<noteq> None"
    unfolding g by (simp add: example_env_def)
  have s: "sort [''runs/b/P.X.reml'', ''runs/a/P.X.reml''] = [''runs/a/P.X.reml'', ''runs/b/P.X.reml'']"
    by code_simp
  have n: "str_nat (length [''runs/b/P.X.reml'', ''runs/a/P.X.reml'']) = ''2''"
    by code_simp
  show ?thesis
    using missing_libs_reported_after_parsing [OF h1 h2 h3, of plain_decimal]
    unfolding g s n by simp
qed

lemma sort_listing:
  "mset listing = mset (reml_files :: string list) \<Longrightarrow> sort listing = sort reml_files"
  by (rule properties_for_sort) simp_all

text \<open>
  C4. The files are processed in sorted order of their paths, and when every file can be
  read, the entry of the summary table for a pair (phenotype, category) that some file
  decodes to holds the values parsed from the file that comes last, in that order, among
  the files decoding to the pair. The tables depend on the files only, not on the order in
  which the pattern lists them.
\<close>

theorem summary_last_write_wins:
  assumes "\<forall>f\<in>set reml_files. fs f \<noteq> None"
    and "p \<in> set reml_files" and "parse_filename p = (ph, ty)"
    and "q = last (filter (\<lambda>f. parse_filename f = (ph, ty)) (sort reml_files))"
    and "parse_reml_file tf fs q = Inr parsed"
    and "mset listing = mset reml_files"
  shows "fst (snd (build_tables tf fs reml_files tr)) = tr @ map Open (sort reml_files)
         \<and> snd (snd (build_tables tf fs reml_files tr)) = None
         \<and> summary_lookup (fst (build_tables tf fs reml_files tr)) ph ty
             = Some (summary_entry_of parsed)
         \<and> build_tables tf fs listing tr = build_tables tf fs reml_files tr"
proof -
  have "\<forall>f\<in>set (sort reml_files). fs f \<noteq> None"
    using assms(1) by simp
  from process_files_readable [OF this, of tf empty_tables tr]
  obtain tb where run: "process_files tf fs (sort reml_files) empty_tables tr
                          = (tb, tr @ map Open (sort reml_files), None)"
    by auto
  have "p \<in> set (filter (\<lambda>f. parse_filename f = (ph, ty)) (sort reml_files))"
    using assms(2,3) by simp
  then have ne: "filter (\<lambda>f. parse_filename f = (ph, ty)) (sort reml_files) \<noteq> []"
    by (metis empty_iff list.set(1))
  have "summary_lookup tb ph ty = Some (summary_entry_of parsed)"
    using process_files_last_wins [OF run, of ph ty] ne assms(4,5) by simp
  moreover have "build_tables tf fs listing tr = build_tables tf fs reml_files tr"
    using sort_listing [OF assms(6)] by (simp add: build_tables_def)
  ultimately show ?thesis
    using run by (simp add: build_tables_def)
qed

theorem summary_last_write_wins_witness:
  "summary_lookup
     (fst (build_tables plain_decimal
             (map_of [(''runs/b/P.X.reml'', report_all), (''runs/a/P.X.reml'', report_k1)])
             [''runs/b/P.X.reml'', ''runs/a/P.X.reml''] []))
     ''P'' ''X''
   = Some \<lparr>sum_converged = Some ''NO'', sum_her_k1 = None, sum_her_k2 = None,
           sum_her_k3 = None, sum_her_all = Some (3 / 10)\<rparr>
   \<and> fst (snd (build_tables plain_decimal
             (map_of [(''runs/b/P.X.reml'', report_all), (''runs/a/P.X.reml'', report_k1)])
             [''runs/b/P.X.reml'', ''runs/a/P.X.reml''] []))
     = [Open ''runs/a/P.X.reml'', Open ''runs/b/P.X.reml'']
   \<and> build_tables plain_decimal
         (map_of [(''runs/b/P.X.reml'', report_all), (''runs/a/P.X.reml'', report_k1)])
         [''runs/a/P.X.reml'', ''runs/b/P.X.reml''] []
     = build_tables plain_decimal
         (map_of [(''runs/b/P.X.reml'', report_all), (''runs/a/P.X.reml'', report_k1)])
         [''runs/b/P.X.reml'', ''runs/a/P.X.reml''] []"
proof -
  let ?fs = "map_of [(''runs/b/P.X.reml'', report_all), (''runs/a/P.X.reml'', report_k1)]"
  let ?files = "[''runs/b/P.X.reml'', ''runs/a/P.X.reml'']"
  let ?parsed = "parse_reml_lines plain_decimal (readlines report_all)"
  have h1: "\<forall>f\<in>set ?files. ?fs f \<noteq> None" by simp
  have h2: "''runs/a/P.X.reml'' \<in> set ?files" by simp
  have h3: "parse_filename ''runs/a/P.X.reml'' = (''P'', ''X'')" by code_simp
  have h4: "''runs/b/P.X.reml'' = last (filter (\<lambda>f. parse_filename f = (''P'', ''X'')) (sort ?files))"
    by code_simp
  have h5: "parse_reml_file plain_decimal ?fs ''runs/b/P.X.reml'' = Inr ?parsed"
    by (simp add: parse_reml_file_def)
  have h6: "mset [''runs/a/P.X.reml'', ''runs/b/P.X.reml''] = mset ?files"
    by simp
  have v: "summary_entry_of ?parsed
             = \<lparr>sum_converged = Some ''NO'', sum_her_k1 = None, sum_her_k2 = None,
                sum_her_k3 = None, sum_her_all = Some (3 / 10)\<rparr>"
    by code_simp
  have s: "sort ?files = [''runs/a/P.X.reml'', ''runs/b/P.X.reml'']"
    by code_simp
  show ?thesis
    using summary_last_write_wins [OF h1 h2 h3 h4 h5 h6, of "[]"] v s by simp
qed

subsection \<open>The detailed sheet\<close>

lemma update_fresh: "k \<notin> fst ` set al \<Longrightarrow> AList.update k v al = al @ [(k, v)]"
  by (induction al) auto

lemma ws_cell_fresh:
  assumes "(r, c) \<notin> fst ` set (ws_cells ws)"
  shows "ws_cell r c v style ws =
           ws\<lparr>ws_cells := ws_cells ws @ [((r, c), style (new_cell\<lparr>cell_value := v\<rparr>))]\<rparr>"
proof -
  have "map_of (ws_cells ws) (r, c) = None"
    using assms by (simp add: map_of_eq_None_iff)
  moreover have "(case v of Blank \<Rightarrow> new_cell | Text t \<Rightarrow> new_cell\<lparr>cell_value := v\<rparr>
                  | Number x \<Rightarrow> new_cell\<lparr>cell_value := v\<rparr>) = (new_cell\<lparr>cell_value := v\<rparr> :: 'a cell)"
    by (cases v) (simp_all add: new_cell_def)
  ultimately show ?thesis
    using assms by (simp add: ws_cell_def Let_def update_fresh)
qed

lemma write_header_cells:
  "\<forall>j\<ge>c0. (1, j) \<notin> fst ` set (ws_cells ws) \<Longrightarrow>
   write_header cols c0 ws =
     ws\<lparr>ws_cells := ws_cells ws @
         map (\<lambda>cn. ((1, fst cn), bold (new_cell\<lparr>cell_value := Text (snd cn)\<rparr>))) (enumerate c0 cols)\<rparr>"
proof (induction cols arbitrary: c0 ws)
  case Nil
  then show ?case by simp
next
  case (Cons n cols)
  let ?ws = "ws_cell 1 c0 (Text n) bold ws"
  have fresh: "(1, c0) \<notin> fst ` set (ws_cells ws)" using Cons.prems by simp
  have ws': "?ws = ws\<lparr>ws_cells := ws_cells ws @ [((1, c0), bold (new_cell\<lparr>cell_value := Text n\<rparr>))]\<rparr>"
    by (rule ws_cell_fresh [OF fresh])
  have "\<forall>j\<ge>c0 + 1. (1, j) \<notin> fst ` set (ws_cells ?ws)"
    unfolding ws' using Cons.prems by auto
  from Cons.IH [OF this] show ?case
    by (simp add: ws' [unfolded One_nat_def])
qed

lemma write_row_cells:
  "\<forall>j\<ge>c0. (r, j) \<notin> fst ` set (ws_cells ws) \<Longrightarrow>
   write_row vs r c0 ws =
     ws\<lparr>ws_cells := ws_cells ws @
         map (\<lambda>cv. ((r, fst cv), new_cell\<lparr>cell_value := snd cv\<rparr>)) (enumerate c0 vs)\<rparr>"
proof (induction vs arbitrary: c0 ws)
  case Nil
  then show ?case by simp
next
  case (Cons v vs)
  let ?ws = "ws_cell r c0 v plain ws"
  have fresh: "(r, c0) \<notin> fst ` set (ws_cells ws)" using Cons.prems by simp
  have ws': "?ws = ws\<lparr>ws_cells := ws_cells ws @ [((r, c0), new_cell\<lparr>cell_value := v\<rparr>)]\<rparr>"
    using ws_cell_fresh [OF fresh, of v plain] by (simp add: plain_def)
  have "\<forall>j\<ge>c0 + 1. (r, j) \<notin> fst ` set (ws_cells ?ws)"
    unfolding ws' using Cons.prems by auto
  from Cons.IH [OF this] show ?case
    by (simp add: ws')
qed

lemma fst_row_cells: "k \<in> fst ` set (row_cells r vs) \<Longrightarrow> fst k = r"
  by (auto simp: row_cells_def)

lemma write_rows_cells:
  "\<forall>r\<ge>r0. \<forall>j. (r, j) \<notin> fst ` set (ws_cells ws) \<Longrightarrow>
   write_rows rows r0 ws =
     ws\<lparr>ws_cells := ws_cells ws @
         concat (map (\<lambda>rv. row_cells (fst rv) (snd rv)) (enumerate r0 rows))\<rparr>"
proof (induction rows arbitrary: r0 ws)
  case Nil
  then show ?case by simp
next
  case (Cons vs rows)
  let ?ws = "write_row vs r0 1 ws"
  have "\<forall>j\<ge>1. (r0, j) \<notin> fst ` set (ws_cells ws)" using Cons.prems by simp
  from write_row_cells [OF this]
  have ws': "?ws = ws\<lparr>ws_cells := ws_cells ws @ row_cells r0 vs\<rparr>"
    by (simp add: row_cells_def)
  have "\<forall>r\<ge>r0 + 1. \<forall>j. (r, j) \<notin> fst ` set (ws_cells ?ws)"
  proof (intro allI impI notI)
    fix r j assume r: "r0 + 1 \<le> r" and "(r, j) \<in> fst ` set (ws_cells ?ws)"
    then have "(r, j) \<in> fst ` set (ws_cells ws) \<or> (r, j) \<in> fst ` set (row_cells r0 vs)"
      unfolding ws' by auto
    then show False
    proof
      assume "(r, j) \<in> fst ` set (ws_cells ws)"
      with Cons.prems r show False by simp
    next
      assume "(r, j) \<in> fst ` set (row_cells r0 vs)"
      from fst_row_cells [OF this] r show False by simp
    qed
  qed
  from Cons.IH [OF this] show ?case
    by (simp add: ws' [unfolded One_nat_def])
qed

lemma detailed_sheet_cells:
  "ws_cells (detailed_sheet df) = header_cells (df_columns df) @ table_cells (df_rows df)"
proof -
  let ?ws0 = "new_sheet ''Detailed Information'' :: 'a worksheet"
  let ?ws1 = "write_header (df_columns df) 1 ?ws0"
  have "\<forall>j\<ge>1. (1, j) \<notin> fst ` set (ws_cells ?ws0)"
    by (simp add: new_sheet_def)
  from write_header_cells [OF this]
  have ws1: "ws_cells ?ws1 = header_cells (df_columns df)"
    by (simp add: header_cells_def new_sheet_def)
  have "\<forall>r\<ge>2. \<forall>j. (r, j) \<notin> fst ` set (ws_cells ?ws1)"
    unfolding ws1 by (auto simp: header_cells_def)
  from write_rows_cells [OF this]
  show ?thesis
    by (simp add: detailed_sheet_def ws1 [unfolded One_nat_def] table_cells_def)
qed

lemma remdups_absorb: "set xs \<subseteq> set ys \<Longrightarrow> remdups (xs @ ys) = remdups ys"
  by (induction xs) auto

lemma columns_of_uniform:
  assumes "records \<noteq> []" and "\<forall>r\<in>set records. map fst r = K" and "distinct K"
  shows "rev (remdups (rev (concat (map (map fst) records)))) = K"
  using assms(1,2)
proof (induction records)
  case Nil
  then show ?case by simp
next
  case (Cons r records)
  have r: "map fst r = K" using Cons.prems by simp
  show ?case
  proof (cases "records = []")
    case True
    with r assms(3) show ?thesis by (simp add: distinct_remdups_id)
  next
    case False
    with Cons have ih: "rev (remdups (rev (concat (map (map fst) records)))) = K" by simp
    have "set (concat (map (map fst) records)) \<subseteq> set K"
      using Cons.prems by auto
    then have "set (rev (concat (map (map fst) records))) \<subseteq> set (rev K)" by simp
    then have "remdups (rev (concat (map (map fst) records)) @ rev K) = remdups (rev K)"
      by (rule remdups_absorb)
    with r assms(3) show ?thesis by (simp add: distinct_remdups_id)
  qed
qed

lemma row_values_of_uniform:
  assumes "distinct (map fst r)"
  shows "map (\<lambda>c. case map_of r c of None \<Rightarrow> Blank | Some v \<Rightarrow> v) (map fst r) = map snd r"
  using assms
proof (induction r)
  case Nil
  then show ?case by simp
next
  case (Cons kv r)
  obtain k v where kv: "kv = (k, v)" by (cases kv)
  from Cons.prems kv have nk: "k \<notin> fst ` set r" and d: "distinct (map fst r)" by auto
  have "map (\<lambda>c. case map_of (kv # r) c of None \<Rightarrow> Blank | Some v \<Rightarrow> v) (map fst r)
        = map (\<lambda>c. case map_of r c of None \<Rightarrow> Blank | Some v \<Rightarrow> v) (map fst r)"
    using nk kv by (intro map_cong) auto
  with Cons.IH [OF d] kv show ?case by simp
qed

lemma data_frame_of_uniform:
  assumes "records \<noteq> []" and "\<forall>r\<in>set records. map fst r = K" and "distinct K"
  shows "data_frame_of records = \<lparr>df_columns = K, df_rows = map (map snd) records\<rparr>"
proof -
  have cols: "rev (remdups (rev (concat (map (map fst) records)))) = K"
    using assms by (rule columns_of_uniform)
  have "map (\<lambda>r. map (\<lambda>c. case map_of r c of None \<Rightarrow> Blank | Some v \<Rightarrow> v) K) records
          = map (map snd) records"
  proof (rule map_cong [OF refl])
    fix r assume "r \<in> set records"
    with assms(2,3) have "map fst r = K" and "distinct (map fst r)" by auto
    with row_values_of_uniform [of r]
    show "map (\<lambda>c. case map_of r c of None \<Rightarrow> Blank | Some v \<Rightarrow> v) K = map snd r" by simp
  qed
  with cols show ?thesis by (simp add: data_frame_of_def Let_def)
qed

lemma data_frame_of_Nil: "data_frame_of [] = \<lparr>df_columns = [], df_rows = []\<rparr>"
  by (simp add: data_frame_of_def)

lemma detailed_row_keys:
  "detailed_row ph ty n conv d = Inr row \<Longrightarrow> map fst row = detail_columns"
  by (auto simp: detailed_row_def detail_columns_def split: if_splits)

lemma detailed_rows_keys:
  "detailed_rows ph ty conv cs acc = Inr dd \<Longrightarrow> \<forall>r\<in>set acc. map fst r = detail_columns \<Longrightarrow>
   \<forall>r\<in>set dd. map fst r = detail_columns"
proof (induction cs arbitrary: acc)
  case Nil
  then show ?case by simp
next
  case (Cons c cs)
  obtain n d where c: "c = (n, d)" by (cases c)
  show ?case
  proof (cases d)
    case None
    with Cons c show ?thesis by simp
  next
    case (Some row)
    show ?thesis
    proof (cases row)
      case Nil
      with Cons c Some show ?thesis by simp
    next
      case (Cons x xs)
      from Cons.prems(1) c Some Cons obtain r where
        r: "detailed_row ph ty n conv (x # xs) = Inr r"
        and rest: "detailed_rows ph ty conv cs (acc @ [r]) = Inr dd"
        by (auto split: sum.splits)
      have "\<forall>r'\<in>set (acc @ [r]). map fst r' = detail_columns"
        using Cons.prems(2) detailed_row_keys [OF r] by simp
      from Cons.IH [OF rest this] show ?thesis .
    qed
  qed
qed

lemma process_file_keys:
  "process_file tf fs p tb = Inr tb' \<Longrightarrow> \<forall>r\<in>set (detailed_data tb). map fst r = detail_columns \<Longrightarrow>
   \<forall>r\<in>set (detailed_data tb'). map fst r = detail_columns"
  by (auto simp: process_file_def Let_def split: prod.splits sum.splits dest: detailed_rows_keys)

lemma process_files_keys:
  "process_files tf fs ps tb tr = (tb', tr', err) \<Longrightarrow>
   \<forall>r\<in>set (detailed_data tb). map fst r = detail_columns \<Longrightarrow>
   \<forall>r\<in>set (detailed_data tb'). map fst r = detail_columns"
proof (induction ps arbitrary: tb tr)
  case Nil
  then show ?case by simp
next
  case (Cons p ps)
  show ?case
  proof (cases "process_file tf fs p tb")
    case (Inl e)
    with Cons.prems show ?thesis by simp
  next
    case (Inr tb1)
    with Cons.prems(1) have "process_files tf fs ps tb1 (tr @ [Open p]) = (tb', tr', err)" by simp
    from Cons.IH [OF this process_file_keys [OF Inr Cons.prems(2)]] show ?thesis .
  qed
qed

lemma detailed_sheet_layout:
  assumes "build_tables tf fs reml_files tr = (tb, tr', err)"
  shows "ws_cells (wb_detailed (render_workbook tb)) =
           (if detailed_data tb = [] then []
            else header_cells detail_columns @ table_cells (map (map snd) (detailed_data tb)))"
proof (cases "detailed_data tb = []")
  case True
  then show ?thesis
    by (simp add: render_workbook_def detailed_sheet_cells data_frame_of_Nil
        header_cells_def table_cells_def)
next
  case False
  have "\<forall>r\<in>set (detailed_data tb). map fst r = detail_columns"
    using process_files_keys [OF assms [unfolded build_tables_def]]
    by (simp add: empty_tables_def)
  from data_frame_of_uniform [OF False this]
  have "data_frame_of (detailed_data tb)
          = \<lparr>df_columns = detail_columns, df_rows = map (map snd) (detailed_data tb)\<rparr>"
    by (simp add: detail_columns_def)
  with False show ?thesis
    by (simp add: render_workbook_def detailed_sheet_cells)
qed

lemma main_saved_detailed_sheet:
  assumes "(path, wb) \<in> set (saved_workbooks (events (main tf e a)))"
  shows "\<exists>tb. wb = render_workbook tb \<and>
           ws_cells (wb_detailed wb) =
             (if detailed_data tb = [] then []
              else header_cells detail_columns @ table_cells (map (map snd) (detailed_data tb)))"
proof -
  let ?files = "glob_files e (arg_pattern a)"
  let ?tr0 = "[Print (''Found '' @ str_nat (length ?files) @ '' .reml files'')] :: 'a event list"
  obtain tb tr err where bt: "build_tables tf (file_text e) ?files ?tr0 = (tb, tr, err)"
    by (cases "build_tables tf (file_text e) ?files ?tr0") auto
  have layout: "ws_cells (wb_detailed (render_workbook tb)) =
             (if detailed_data tb = [] then []
              else header_cells detail_columns @ table_cells (map (map snd) (detailed_data tb)))"
    by (rule detailed_sheet_layout [OF bt])
  show ?thesis
  proof (cases "?files \<noteq> [] \<and> err = None \<and> libs_installed e \<and> writable e (arg_output a)")
    case True
    then have err: "err = None" by simp
    have tr: "tr = ?tr0 @ map Open (sort ?files)"
      using process_files_trace [OF bt [unfolded build_tables_def err]] .
    have "saved_workbooks (events (main tf e a)) = [(arg_output a, render_workbook tb)]"
      using True bt
      by (simp add: main_def Let_def tr saved_workbooks_append saved_workbooks_Open)
    with assms have "wb = render_workbook tb" by simp
    with layout show ?thesis by blast
  next
    case False
    have "saved_workbooks tr = []"
    proof (cases err)
      case None
      from process_files_trace [OF bt [unfolded build_tables_def None]]
      show ?thesis by (simp add: saved_workbooks_append saved_workbooks_Open)
    next
      case (Some x)
      have "\<And>tb0 tr0. process_files tf (file_text e) ps tb0 tr0 = (tb, tr, err) \<Longrightarrow>
              saved_workbooks tr = saved_workbooks tr0" for ps
      proof (induction ps)
        case Nil
        then show ?case by simp
      next
        case (Cons p ps)
        show ?case
        proof (cases "process_file tf (file_text e) p tb0")
          case (Inl x)
          with Cons.prems show ?thesis by (auto simp: saved_workbooks_append)
        next
          case (Inr tb1)
          with Cons.prems have "process_files tf (file_text e) ps tb1 (tr0 @ [Open p]) = (tb, tr, err)"
            by simp
          from Cons.IH [OF this] show ?thesis by (simp add: saved_workbooks_append)
        qed
      qed
      from this [OF bt [unfolded build_tables_def]] show ?thesis by simp
    qed
    with False bt have "saved_workbooks (events (main tf e a)) = []"
      by (auto simp: main_def Let_def saved_workbooks_append split: option.splits)
    with assms show ?thesis by simp
  qed
qed

text \<open>
  C7. The detailed sheet of every written document is claimed to start with the header of
  nine column names, also when no file holds a recognised component. The header is
  written from the columns of the data frame, and a frame built from no row has no
  column: for one file without a component section the document is written and its
  detailed sheet holds no cell at all.
\<close>

theorem detailed_sheet_without_header:
  "map (ws_cells \<circ> wb_detailed \<circ> snd)
     (saved_workbooks (events (main plain_decimal
        (example_env [(''runs/a/A.X.reml'', report_bare)] True) example_args)))
   = [[]]"
  by code_simp

end
